theory Spec2Isabelle
  imports Main "HOL-Library.Word"
begin

section \<open>Strings as the matcher uses them\<close>

text \<open>
  A JavaScript string is a sequence of 16-bit code units. The strings that the matcher
  and the resolver split, trim and search are lists of such units; \<open>ascii\<close> writes
  one from a literal of ASCII characters. The white space of \<open>trim()\<close> and of the
  regular expression \<^verbatim>\<open>\s\<close> is the same set of units: tab, line feed, vertical tab, form
  feed, carriage return, space, no-break space, U+1680, U+2000 to U+200A, U+2028,
  U+2029, U+202F, U+205F, U+3000 and U+FEFF.

  \<open>String.prototype.toLowerCase\<close> belongs to the JavaScript engine. It follows the
  Unicode case mappings, which depend on the context of a character, and it is a
  parameter of every function below that calls it.
\<close>

type_synonym js_string = "16 word list"

definition ascii :: "string \<Rightarrow> js_string" where
  "ascii s = map of_char s"

definition is_space :: "16 word \<Rightarrow> bool" where
  "is_space u \<longleftrightarrow>
     u \<in> {0x09, 0x0A, 0x0B, 0x0C, 0x0D, 0x20, 0xA0, 0x1680, 0x2028, 0x2029, 0x202F, 0x205F,
           0x3000, 0xFEFF}
     \<or> (0x2000 \<le> u \<and> u \<le> 0x200A)"

text \<open>\<open>s.trim()\<close>: white space removed at both ends.\<close>

definition trim :: "js_string \<Rightarrow> js_string" where
  "trim s = rev (dropWhile is_space (rev (dropWhile is_space s)))"

text \<open>\<open>hay.startsWith(needle)\<close> and \<open>hay.includes(needle)\<close>, by scanning \<open>hay\<close>.\<close>

fun startsWith :: "js_string \<Rightarrow> js_string \<Rightarrow> bool" where
  "startsWith hay [] = True"
| "startsWith [] (n # ns) = False"
| "startsWith (h # hs) (n # ns) = (h = n \<and> startsWith hs ns)"

fun includes_str :: "js_string \<Rightarrow> js_string \<Rightarrow> bool" where
  "includes_str [] needle = (needle = [])"
| "includes_str (h # hs) needle = (startsWith (h # hs) needle \<or> includes_str hs needle)"

text \<open>
  \<open>s.split(/\s+/)\<close>: the pieces of \<open>s\<close> between the maximal runs of white space.
  A run at the start or at the end of \<open>s\<close> leaves an empty piece there, and the
  empty string splits into the single piece \<open>""\<close>. \<open>split_from in_run cur s\<close> scans
  \<open>s\<close> with the piece read so far in \<open>cur\<close>; \<open>in_run\<close> says that the scan is inside a
  run of white space, whose first character has already closed the piece before it.
\<close>

fun split_from :: "bool \<Rightarrow> js_string \<Rightarrow> js_string \<Rightarrow> js_string list" where
  "split_from in_run cur [] = [cur]"
| "split_from in_run cur (c # cs) =
     (if is_space c
      then (if in_run then split_from True cur cs else cur # split_from True [] cs)
      else split_from False (cur @ [c]) cs)"

definition split_ws :: "js_string \<Rightarrow> js_string list" where
  "split_ws s = split_from False [] s"

section \<open>The background catalog and the keyword matcher\<close>

text \<open>
  \<open>BackgroundImage\<close> of \<open>backgroundConfig\<close>. The list \<open>backgrounds\<close> and the record
  \<open>defaultBackground\<close> of that module are parameters of the functions below.
\<close>

record BackgroundImage =
  bg_id :: js_string
  filename :: js_string
  tags :: "js_string list"

text \<open>
  The body of the loop over \<open>words\<close> in \<open>keywordMatch\<close>: what one word adds to the
  score for one lower-cased tag.
\<close>

definition word_points :: "js_string \<Rightarrow> js_string \<Rightarrow> nat" where
  "word_points tagLower word =
     (if word = tagLower then 10
      else if length word > 3 \<and> includes_str tagLower word then 3
      else if length tagLower > 3 \<and> includes_str word tagLower then 3
      else 0)"

text \<open>The body of the loop over \<open>bg.tags\<close>: the score after one more tag.\<close>

definition tag_step ::
  "(js_string \<Rightarrow> js_string) \<Rightarrow> js_string \<Rightarrow> js_string list \<Rightarrow> js_string \<Rightarrow> nat \<Rightarrow> nat" where
  "tag_step toLowerCase inputLower words tag score =
     (let tagLower = toLowerCase tag;
          score = fold (\<lambda>word sc. sc + word_points tagLower word) words score
      in if includes_str inputLower tagLower \<and> length tagLower > 3 then score + 5 else score)"

definition bg_score ::
  "(js_string \<Rightarrow> js_string) \<Rightarrow> js_string \<Rightarrow> js_string list \<Rightarrow> BackgroundImage \<Rightarrow> nat" where
  "bg_score toLowerCase inputLower words bg =
     fold (tag_step toLowerCase inputLower words) (tags bg) 0"

text \<open>The body of the loop over \<open>backgrounds\<close>, on the pair \<open>(bestMatch, bestScore)\<close>.\<close>

definition best_step ::
  "(js_string \<Rightarrow> js_string) \<Rightarrow> js_string \<Rightarrow> js_string list \<Rightarrow> BackgroundImage
     \<Rightarrow> BackgroundImage \<times> nat \<Rightarrow> BackgroundImage \<times> nat" where
  "best_step toLowerCase inputLower words bg best =
     (let score = bg_score toLowerCase inputLower words bg
      in if score > snd best then (bg, score) else best)"

definition keywordMatch_loop ::
  "(js_string \<Rightarrow> js_string) \<Rightarrow> BackgroundImage list \<Rightarrow> BackgroundImage \<Rightarrow> js_string
     \<Rightarrow> BackgroundImage \<times> nat" where
  "keywordMatch_loop toLowerCase backgrounds defaultBackground userInput =
     (let inputLower = toLowerCase userInput;
          words = split_ws inputLower
      in fold (best_step toLowerCase inputLower words) backgrounds (defaultBackground, 0))"

definition keywordMatch ::
  "(js_string \<Rightarrow> js_string) \<Rightarrow> BackgroundImage list \<Rightarrow> BackgroundImage \<Rightarrow> js_string
     \<Rightarrow> BackgroundImage" where
  "keywordMatch toLowerCase backgrounds defaultBackground userInput =
     fst (keywordMatch_loop toLowerCase backgrounds defaultBackground userInput)"

text \<open>
  The reference score in the words of the specification, for comparison with the loop:
  for each tag, 10 if some input word equals the tag, 3 if some input word longer than
  3 characters is a substring of the tag or the tag (longer than 3 characters) is a
  substring of some input word, 5 if the tag (longer than 3 characters) is a substring
  of the lower-cased input; the rules add up.
\<close>

definition spec_tag_points :: "js_string \<Rightarrow> js_string list \<Rightarrow> js_string \<Rightarrow> nat" where
  "spec_tag_points inputLower words tag =
     (if \<exists>w \<in> set words. w = tag then 10 else 0)
   + (if \<exists>w \<in> set words. (length w > 3 \<and> includes_str tag w)
                          \<or> (length tag > 3 \<and> includes_str w tag) then 3 else 0)
   + (if length tag > 3 \<and> includes_str inputLower tag then 5 else 0)"

definition spec_score :: "(js_string \<Rightarrow> js_string) \<Rightarrow> js_string \<Rightarrow> BackgroundImage \<Rightarrow> nat" where
  "spec_score toLowerCase userInput bg =
     (\<Sum>tag \<leftarrow> tags bg.
        spec_tag_points (toLowerCase userInput) (split_ws (toLowerCase userInput)) tag)"

text \<open>
  The score as a sum: every pair of a tag and an input word (each occurrence of a word
  counts) gives the points of \<open>word_points\<close>, and every tag whose lower-cased form is
  longer than 3 characters and occurs in the lower-cased input gives 5 more.
\<close>

definition tag_total ::
  "(js_string \<Rightarrow> js_string) \<Rightarrow> js_string \<Rightarrow> js_string list \<Rightarrow> js_string \<Rightarrow> nat" where
  "tag_total toLowerCase inputLower words tag =
     (\<Sum>word \<leftarrow> words. word_points (toLowerCase tag) word)
   + (if length (toLowerCase tag) > 3 \<and> includes_str inputLower (toLowerCase tag) then 5 else 0)"

definition total_score :: "(js_string \<Rightarrow> js_string) \<Rightarrow> js_string \<Rightarrow> BackgroundImage \<Rightarrow> nat" where
  "total_score toLowerCase userInput bg =
     (\<Sum>tag \<leftarrow> tags bg.
        tag_total toLowerCase (toLowerCase userInput) (split_ws (toLowerCase userInput)) tag)"

section \<open>The background resolver\<close>

text \<open>
  \<open>matchBackground\<close> is an \<open>async\<close> function: its result is a promise, fulfilled
  (\<open>Inr\<close>) or rejected (\<open>Inl\<close>). What \<open>fetch\<close> and \<open>response.json()\<close> deliver is
  outside the program and is a parameter: the request is rejected, or a response
  arrives with a status and a body that parses as JSON (\<open>Some\<close>) or does not.
\<close>

datatype js_error = NetworkError | HttpError nat | SyntaxError | TypeError

datatype js_value =
    JUndefined
  | JNull
  | JBool bool
  | JNum int
  | JStr js_string
  | JArr "js_value list"
  | JObj "(string \<times> js_value) list"

datatype fetch_reply = FetchRejected | Response nat "js_value option"

text \<open>
  A value that \<open>if (v)\<close> and \<open>!v\<close> treat as true, for \<open>string | undefined | null\<close>:
  a string that is not empty.
\<close>

definition truthy :: "'a list option \<Rightarrow> bool" where
  "truthy v = (case v of None \<Rightarrow> False | Some s \<Rightarrow> s \<noteq> [])"

definition nullish :: "js_value \<Rightarrow> bool" where
  "nullish v \<longleftrightarrow> v = JUndefined \<or> v = JNull"

text \<open>
  \<open>v.name\<close> for the names \<open>choices\<close>, \<open>message\<close> and \<open>content\<close>, which no
  prototype defines: reading a property of \<open>undefined\<close> or \<open>null\<close> throws, an
  object gives its own property, anything else gives \<open>undefined\<close>.
\<close>

fun get_member :: "js_value \<Rightarrow> string \<Rightarrow> js_error + js_value" where
  "get_member JUndefined name = Inl TypeError"
| "get_member JNull name = Inl TypeError"
| "get_member (JObj kvs) name =
     Inr (case map_of kvs name of Some v \<Rightarrow> v | None \<Rightarrow> JUndefined)"
| "get_member v name = Inr JUndefined"

text \<open>\<open>v[0]\<close>.\<close>

fun get_first :: "js_value \<Rightarrow> js_error + js_value" where
  "get_first JUndefined = Inl TypeError"
| "get_first JNull = Inl TypeError"
| "get_first (JArr vs) = Inr (case vs of [] \<Rightarrow> JUndefined | v # _ \<Rightarrow> v)"
| "get_first (JStr s) = Inr (case s of [] \<Rightarrow> JUndefined | c # _ \<Rightarrow> JStr [c])"
| "get_first (JObj kvs) =
     Inr (case map_of kvs ''0'' of Some v \<Rightarrow> v | None \<Rightarrow> JUndefined)"
| "get_first v = Inr JUndefined"

text \<open>\<open>content.trim()\<close>: only a string has the method.\<close>

fun call_trim :: "js_value \<Rightarrow> js_error + js_value" where
  "call_trim (JStr s) = Inr (JStr (trim s))"
| "call_trim v = Inl TypeError"

text \<open>\<open>data.choices[0]?.message?.content?.trim()\<close>.\<close>

definition matchedId_of :: "js_value \<Rightarrow> js_error + js_value" where
  "matchedId_of data =
     (case get_member data ''choices'' of
        Inl e \<Rightarrow> Inl e
      | Inr choices \<Rightarrow>
          (case get_first choices of
             Inl e \<Rightarrow> Inl e
           | Inr choice \<Rightarrow>
               if nullish choice then Inr JUndefined
               else (case get_member choice ''message'' of
                       Inl e \<Rightarrow> Inl e
                     | Inr message \<Rightarrow>
                         if nullish message then Inr JUndefined
                         else (case get_member message ''content'' of
                                 Inl e \<Rightarrow> Inl e
                               | Inr content \<Rightarrow>
                                   if nullish content then Inr JUndefined
                                   else call_trim content))))"

text \<open>
  The body of the \<open>try\<close> block: \<open>Inl\<close> is an exception thrown inside it (by the
  rejected \<open>fetch\<close>, by the \<open>throw\<close> on a response that is not ok, that is, whose
  status is not in 200..299, by \<open>response.json()\<close>, or by the property chain).
\<close>

definition try_block ::
  "(js_string \<Rightarrow> js_string) \<Rightarrow> BackgroundImage list \<Rightarrow> BackgroundImage \<Rightarrow> fetch_reply
     \<Rightarrow> js_string \<Rightarrow> js_error + BackgroundImage" where
  "try_block toLowerCase backgrounds defaultBackground reply userInput =
     (case reply of
        FetchRejected \<Rightarrow> Inl NetworkError
      | Response status body \<Rightarrow>
          if \<not> (200 \<le> status \<and> status \<le> 299) then Inl (HttpError status)
          else (case body of
                  None \<Rightarrow> Inl SyntaxError
                | Some data \<Rightarrow>
                    (case matchedId_of data of
                       Inl e \<Rightarrow> Inl e
                     | Inr matchedId \<Rightarrow>
                         (case find (\<lambda>bg. JStr (bg_id bg) = matchedId) backgrounds of
                            Some matched \<Rightarrow> Inr matched
                          | None \<Rightarrow>
                              Inr (keywordMatch toLowerCase backgrounds defaultBackground
                                     userInput)))))"

text \<open>
  \<open>matchBackground\<close>: the number of requests sent to the external service, and the
  settled promise. \<open>OPENAI_API_KEY\<close> is the value of the environment variable.
\<close>

definition matchBackground ::
  "(js_string \<Rightarrow> js_string) \<Rightarrow> js_string option \<Rightarrow> BackgroundImage list \<Rightarrow> BackgroundImage
     \<Rightarrow> fetch_reply \<Rightarrow> js_string \<Rightarrow> nat \<times> (js_error + BackgroundImage)" where
  "matchBackground toLowerCase OPENAI_API_KEY backgrounds defaultBackground reply userInput =
     (if userInput = [] \<or> trim userInput = [] then (0, Inr defaultBackground)
      else if \<not> truthy OPENAI_API_KEY
        then (0, Inr (keywordMatch toLowerCase backgrounds defaultBackground userInput))
      else (1, case try_block toLowerCase backgrounds defaultBackground reply userInput of
                 Inr matched \<Rightarrow> Inr matched
               | Inl error \<Rightarrow>
                   Inr (keywordMatch toLowerCase backgrounds defaultBackground userInput)))"

text \<open>
  The ways in which the external call fails: the request is rejected (a network error),
  the status is not in 200..299, the body is not JSON, the property chain throws, or the
  id it yields (\<open>undefined\<close> included) is the id of no record of the catalog.
\<close>

definition call_failed :: "BackgroundImage list \<Rightarrow> fetch_reply \<Rightarrow> bool" where
  "call_failed backgrounds reply =
     (case reply of
        FetchRejected \<Rightarrow> True
      | Response status body \<Rightarrow>
          status < 200 \<or> 299 < status
          \<or> (case body of
                None \<Rightarrow> True
              | Some data \<Rightarrow>
                  (case matchedId_of data of
                     Inl e \<Rightarrow> True
                   | Inr matchedId \<Rightarrow> \<forall>bg \<in> set backgrounds. JStr (bg_id bg) \<noteq> matchedId)))"

section \<open>The motion and collision loop\<close>

text \<open>
  The state of the \<open>MainGame\<close> component that the loop owns: \<open>position\<close> and
  \<open>activeMenu\<close>. \<open>staticSprites\<close> and \<open>SPRITE_SIZE\<close> of \<open>gameConfig\<close> and the
  size of the window are parameters. Coordinates are integers: the player starts at
  (0, 0) and moves by 5 or 10, and the window reports whole pixels.
\<close>

record sprite =
  sprite_id :: string
  sprite_x :: int
  sprite_y :: int
  color :: string

record point =
  pos_x :: int
  pos_y :: int

record game_state =
  position :: point
  activeMenu :: "string option"

record game_config =
  staticSprites :: "sprite list"
  SPRITE_SIZE :: int
  innerWidth :: int
  innerHeight :: int

definition speed :: int where
  "speed = 5"

text \<open>The condition of the \<open>if\<close> in \<open>checkCollision\<close>.\<close>

definition hits :: "int \<Rightarrow> int \<Rightarrow> int \<Rightarrow> sprite \<Rightarrow> bool" where
  "hits sz xp yp s \<longleftrightarrow>
     xp < sprite_x s + sz \<and> xp + sz > sprite_x s \<and>
     yp < sprite_y s + sz \<and> yp + sz > sprite_y s"

text \<open>
  \<open>checkCollision\<close>: the loop visits every sprite and calls \<open>setActiveMenu\<close> for each
  one that the player overlaps; the state holds the value of the latest call.
\<close>

definition checkCollision :: "game_config \<Rightarrow> int \<Rightarrow> int \<Rightarrow> string option \<Rightarrow> string option" where
  "checkCollision cfg xp yp menu =
     fold (\<lambda>s m. if hits (SPRITE_SIZE cfg) xp yp s then Some (sprite_id s) else m)
          (staticSprites cfg) menu"

text \<open>The position that a frame computes from the previous one, after the boundary check.\<close>

definition candidate :: "game_config \<Rightarrow> string set \<Rightarrow> point \<Rightarrow> point" where
  "candidate cfg keysPressed prev =
     (let newX = pos_x prev;
          newY = pos_y prev;
          newY = (if ''ArrowUp'' \<in> keysPressed then newY - speed else newY);
          newY = (if ''ArrowDown'' \<in> keysPressed then newY + speed else newY);
          newX = (if ''ArrowLeft'' \<in> keysPressed then newX - speed else newX);
          newX = (if ''ArrowRight'' \<in> keysPressed then newX + speed else newX);
          newX = max 0 (min newX (innerWidth cfg - SPRITE_SIZE cfg));
          newY = max 0 (min newY (innerHeight cfg - SPRITE_SIZE cfg))
      in \<lparr>pos_x = newX, pos_y = newY\<rparr>)"

text \<open>One run of \<open>gameLoop\<close>: the updater of \<open>setPosition\<close> with its collision check.\<close>

definition gameLoop :: "game_config \<Rightarrow> string set \<Rightarrow> game_state \<Rightarrow> game_state" where
  "gameLoop cfg keysPressed st =
     (let new = candidate cfg keysPressed (position st)
      in \<lparr>position = new,
          activeMenu = checkCollision cfg (pos_x new) (pos_y new) (activeMenu st)\<rparr>)"

text \<open>
  The effect that starts the loop returns at once while \<open>activeMenu\<close> is set, so a
  frame changes nothing then.
\<close>

definition tick :: "game_config \<Rightarrow> string set \<Rightarrow> game_state \<Rightarrow> game_state" where
  "tick cfg keysPressed st = (if truthy (activeMenu st) then st else gameLoop cfg keysPressed st)"

text \<open>\<open>staticSprites.find(s => s.id === activeMenu)\<close>.\<close>

definition activeSprite :: "game_config \<Rightarrow> game_state \<Rightarrow> sprite option" where
  "activeSprite cfg st =
     (case activeMenu st of
        None \<Rightarrow> None
      | Some i \<Rightarrow> find (\<lambda>s. sprite_id s = i) (staticSprites cfg))"

text \<open>
  The \<open>onClose\<close> handler given to the battle screen, with the \<open>activeSprite\<close> of
  the render that made it as \<open>enemy\<close>. The handler tests nothing when it runs: it sets
  \<open>activeMenu\<close> to \<open>null\<close> and moves the player, whatever the state.
\<close>

definition onClose :: "sprite \<Rightarrow> game_state \<Rightarrow> game_state" where
  "onClose enemy st =
     (let prev = position st
      in \<lparr>position =
            \<lparr>pos_x = (if pos_x prev < sprite_x enemy then pos_x prev - 10 else pos_x prev + 10),
             pos_y = (if pos_y prev < sprite_y enemy then pos_y prev - 10 else pos_y prev + 10)\<rparr>,
          activeMenu = None\<rparr>)"

definition initial :: game_state where
  "initial = \<lparr>position = \<lparr>pos_x = 0, pos_y = 0\<rparr>, activeMenu = None\<rparr>"

text \<open>The state after a sequence of frames from the initial state, given the keys held in each.\<close>

definition run :: "game_config \<Rightarrow> string set list \<Rightarrow> game_state" where
  "run cfg frames = fold (tick cfg) frames initial"

definition in_bounds :: "game_config \<Rightarrow> point \<Rightarrow> bool" where
  "in_bounds cfg p \<longleftrightarrow>
     0 \<le> pos_x p \<and> pos_x p \<le> innerWidth cfg - SPRITE_SIZE cfg \<and>
     0 \<le> pos_y p \<and> pos_y p \<le> innerHeight cfg - SPRITE_SIZE cfg"

text \<open>
  The length by which two intervals of length \<open>sz\<close> that start at \<open>a\<close> and at \<open>b\<close>
  overlap on an axis (zero when they touch, negative when they are apart).
\<close>

definition overlap_len :: "int \<Rightarrow> int \<Rightarrow> int \<Rightarrow> int" where
  "overlap_len sz a b = min (a + sz) (b + sz) - max a b"

text \<open>The sprites that the player's footprint at \<open>p\<close> overlaps, in the order of the list.\<close>

definition overlapping :: "game_config \<Rightarrow> point \<Rightarrow> sprite list" where
  "overlapping cfg p = filter (hits (SPRITE_SIZE cfg) (pos_x p) (pos_y p)) (staticSprites cfg)"

section \<open>Sample configurations\<close>

text \<open>
  Four enemies on the grid of the first version of the game (squares of size 50 at
  (200, 150), (400, 150), (200, 350) and (400, 350)), in a window of 800 by 600 and
  in a window of 500 by 600; and two enemies that stand 20 apart.
\<close>

definition grid_sprites :: "sprite list" where
  "grid_sprites =
     [\<lparr>sprite_id = ''enemy1'', sprite_x = 200, sprite_y = 150, color = ''blue''\<rparr>,
      \<lparr>sprite_id = ''enemy2'', sprite_x = 400, sprite_y = 150, color = ''blue''\<rparr>,
      \<lparr>sprite_id = ''enemy3'', sprite_x = 200, sprite_y = 350, color = ''blue''\<rparr>,
      \<lparr>sprite_id = ''enemy4'', sprite_x = 400, sprite_y = 350, color = ''blue''\<rparr>]"

definition wide_config :: game_config where
  "wide_config =
     \<lparr>staticSprites = grid_sprites, SPRITE_SIZE = 50, innerWidth = 800, innerHeight = 600\<rparr>"

definition narrow_config :: game_config where
  "narrow_config =
     \<lparr>staticSprites = grid_sprites, SPRITE_SIZE = 50, innerWidth = 500, innerHeight = 600\<rparr>"

definition crowded_config :: game_config where
  "crowded_config =
     \<lparr>staticSprites =
        [\<lparr>sprite_id = ''enemy1'', sprite_x = 200, sprite_y = 150, color = ''blue''\<rparr>,
         \<lparr>sprite_id = ''enemy2'', sprite_x = 220, sprite_y = 150, color = ''green''\<rparr>],
      SPRITE_SIZE = 50, innerWidth = 800, innerHeight = 600\<rparr>"

text \<open>Hold the right arrow for \<open>m\<close> frames, then the down arrow for \<open>n\<close> frames.\<close>

definition right_then_down :: "nat \<Rightarrow> nat \<Rightarrow> string set list" where
  "right_then_down m n = replicate m {''ArrowRight''} @ replicate n {''ArrowDown''}"

text \<open>
  Three records in the style of the catalog (the prompt of \<open>matchBackground\<close> names
  \<open>bg7\<close>, a space nebula, and \<open>bg12\<close>, a city night skyline); a record with an empty
  tag and a record with the tag \<open>\<Sigma>\<close> (U+03A3); and the body of a chat completion whose
  message has the given content.
\<close>

definition plain_bg :: BackgroundImage where
  "plain_bg =
     \<lparr>bg_id = ascii ''bg1'', filename = ascii ''grass_field.png'',
      tags = [ascii ''grass'', ascii ''field'']\<rparr>"

definition space_bg :: BackgroundImage where
  "space_bg =
     \<lparr>bg_id = ascii ''bg7'', filename = ascii ''space_nebula.png'',
      tags = [ascii ''space'', ascii ''nebula'']\<rparr>"

definition city_bg :: BackgroundImage where
  "city_bg =
     \<lparr>bg_id = ascii ''bg12'', filename = ascii ''city_night_skyline.png'',
      tags = [ascii ''city'', ascii ''night'', ascii ''skyline'']\<rparr>"

definition sample_backgrounds :: "BackgroundImage list" where
  "sample_backgrounds = [plain_bg, space_bg, city_bg]"

definition untagged_bg :: BackgroundImage where
  "untagged_bg = \<lparr>bg_id = ascii ''bg2'', filename = ascii ''blank.png'', tags = [[]]\<rparr>"

definition sigma_bg :: BackgroundImage where
  "sigma_bg = \<lparr>bg_id = ascii ''bg3'', filename = ascii ''sigma.png'', tags = [[0x3A3]]\<rparr>"

definition completion :: "string \<Rightarrow> js_value" where
  "completion content =
     JObj [(''choices'', JArr [JObj [(''message'', JObj [(''role'', JStr (ascii ''assistant'')),
                                                         (''content'', JStr (ascii content))])]])]"

text \<open>
  What \<open>toLowerCase\<close> gives for a string of ASCII characters, U+FEFF and the Greek
  letters \<open>\<Sigma>\<close> (U+03A3), \<open>\<sigma>\<close> (U+03C3) and final \<open>\<sigma>\<close> (U+03C2), which is all that the
  sample inputs hold. \<open>A\<close> to \<open>Z\<close> become \<open>a\<close> to \<open>z\<close>. \<open>\<Sigma>\<close> becomes U+03C2 in
  final position, that is, when a cased letter stands before it and none after it,
  characters that case mapping ignores being skipped on both sides (among the characters
  named: apostrophe, full stop, colon, circumflex, grave accent and U+FEFF); elsewhere it
  becomes U+03C3. Every other unit stays. \<open>lower_from seen s\<close> lower-cases \<open>s\<close> with the
  units before it, last first, in \<open>seen\<close>.
\<close>

definition cased :: "16 word \<Rightarrow> bool" where
  "cased u \<longleftrightarrow>
     (0x41 \<le> u \<and> u \<le> 0x5A) \<or> (0x61 \<le> u \<and> u \<le> 0x7A) \<or> u \<in> {0x3A3, 0x3C2, 0x3C3}"

definition case_ignorable :: "16 word \<Rightarrow> bool" where
  "case_ignorable u \<longleftrightarrow> u \<in> {0x27, 0x2E, 0x3A, 0x5E, 0x60, 0xFEFF}"

fun next_is_cased :: "js_string \<Rightarrow> bool" where
  "next_is_cased [] = False"
| "next_is_cased (u # us) = (if case_ignorable u then next_is_cased us else cased u)"

fun lower_from :: "js_string \<Rightarrow> js_string \<Rightarrow> js_string" where
  "lower_from seen [] = []"
| "lower_from seen (u # us) =
     (if u = 0x3A3 then (if next_is_cased seen \<and> \<not> next_is_cased us then 0x3C2 else 0x3C3)
      else if 0x41 \<le> u \<and> u \<le> 0x5A then u + 0x20
      else u) # lower_from (u # seen) us"

definition sample_toLowerCase :: "js_string \<Rightarrow> js_string" where
  "sample_toLowerCase s = lower_from [] s"

section \<open>Properties of the motion and collision loop\<close>

subsection \<open>Supporting lemmas\<close>

lemma hits_overlap_len:
  "hits sz xp yp s \<longleftrightarrow>
     0 < overlap_len sz xp (sprite_x s) \<and> 0 < overlap_len sz yp (sprite_y s)"
  unfolding hits_def overlap_len_def by auto

lemma candidate_in_bounds:
  assumes "SPRITE_SIZE cfg \<le> innerWidth cfg" and "SPRITE_SIZE cfg \<le> innerHeight cfg"
  shows "in_bounds cfg (candidate cfg keysPressed prev)"
  using assms unfolding in_bounds_def candidate_def by (simp add: Let_def)

lemma position_gameLoop: "position (gameLoop cfg keysPressed st) = candidate cfg keysPressed (position st)"
  by (simp add: gameLoop_def Let_def)

lemma tick_keeps_in_bounds:
  assumes "SPRITE_SIZE cfg \<le> innerWidth cfg" and "SPRITE_SIZE cfg \<le> innerHeight cfg"
    and "in_bounds cfg (position st)"
  shows "in_bounds cfg (position (tick cfg keysPressed st))"
  using assms candidate_in_bounds [of cfg keysPressed "position st"]
  by (simp add: tick_def position_gameLoop)

lemma ticks_keep_in_bounds:
  assumes "SPRITE_SIZE cfg \<le> innerWidth cfg" and "SPRITE_SIZE cfg \<le> innerHeight cfg"
  shows "in_bounds cfg (position st) \<Longrightarrow> in_bounds cfg (position (fold (tick cfg) ks st))"
  by (induction ks arbitrary: st) (simp_all add: tick_keeps_in_bounds [OF assms])

lemma fold_latest:
  "fold (\<lambda>s m. if P s then Some (f s) else m) xs m =
     (if filter P xs = [] then m else Some (f (last (filter P xs))))"
  by (induction xs rule: rev_induct) auto

lemma checkCollision_overlapping:
  "checkCollision cfg (pos_x p) (pos_y p) menu =
     (if overlapping cfg p = [] then menu else Some (sprite_id (last (overlapping cfg p))))"
  unfolding checkCollision_def overlapping_def by (rule fold_latest)

lemma activeMenu_gameLoop:
  "activeMenu (gameLoop cfg keysPressed st) =
     (let new = candidate cfg keysPressed (position st)
      in if overlapping cfg new = [] then activeMenu st
         else Some (sprite_id (last (overlapping cfg new))))"
  by (simp add: gameLoop_def Let_def checkCollision_overlapping)

lemma last_overlapping:
  assumes "overlapping cfg p \<noteq> []"
  shows "last (overlapping cfg p) \<in> set (staticSprites cfg)"
    and "hits (SPRITE_SIZE cfg) (pos_x p) (pos_y p) (last (overlapping cfg p))"
proof -
  have "last (overlapping cfg p) \<in> set (overlapping cfg p)"
    using assms by (rule last_in_set)
  then show "last (overlapping cfg p) \<in> set (staticSprites cfg)"
    and "hits (SPRITE_SIZE cfg) (pos_x p) (pos_y p) (last (overlapping cfg p))"
    by (simp_all add: overlapping_def)
qed

lemma find_by_id:
  "distinct (map sprite_id xs) \<Longrightarrow> t \<in> set xs \<Longrightarrow> find (\<lambda>s. sprite_id s = sprite_id t) xs = Some t"
  by (induction xs) force+

lemma paused_ticks_idle:
  "truthy (activeMenu st) \<Longrightarrow> fold (tick cfg) ks st = st"
  by (induction ks) (simp_all add: tick_def)

lemma run_narrow:
  "run narrow_config (right_then_down 89 21) =
     \<lparr>position = \<lparr>pos_x = 445, pos_y = 105\<rparr>, activeMenu = Some ''enemy2''\<rparr>"
  by code_simp

lemma run_crowded:
  "run crowded_config (right_then_down 37 20) =
     \<lparr>position = \<lparr>pos_x = 185, pos_y = 100\<rparr>, activeMenu = None\<rparr>"
  by code_simp

subsection \<open>The overlap test\<close>

text \<open>
  Claim C5. The test of \<open>checkCollision\<close> holds for a player position and an obstacle
  exactly when the two square footprints overlap by a positive length on both axes.
  Footprints that touch (overlap of length 0 on an axis) do not collide; footprints
  that overlap by 1 on both axes do. The collision check reports a collision exactly
  when the test holds for some obstacle of the list.
\<close>

theorem collision_is_strict_overlap:
  "(hits sz xp yp s \<longleftrightarrow>
      0 < overlap_len sz xp (sprite_x s) \<and> 0 < overlap_len sz yp (sprite_y s))
   \<and> (overlap_len sz xp (sprite_x s) = 0 \<or> overlap_len sz yp (sprite_y s) = 0
        \<longrightarrow> \<not> hits sz xp yp s)
   \<and> (overlap_len sz xp (sprite_x s) = 1 \<and> overlap_len sz yp (sprite_y s) = 1
        \<longrightarrow> hits sz xp yp s)
   \<and> (checkCollision cfg xp yp None \<noteq> None \<longleftrightarrow>
        (\<exists>t \<in> set (staticSprites cfg). hits (SPRITE_SIZE cfg) xp yp t))"
proof -
  have "checkCollision cfg xp yp None \<noteq> None \<longleftrightarrow>
        (\<exists>t \<in> set (staticSprites cfg). hits (SPRITE_SIZE cfg) xp yp t)"
    using checkCollision_overlapping [of cfg "\<lparr>pos_x = xp, pos_y = yp\<rparr>" None]
    by (auto simp: overlapping_def filter_empty_conv)
  then show ?thesis
    by (simp add: hits_overlap_len)
qed

text \<open>
  With footprints of size 50 and the obstacle at (200, 150): the player at (150, 150)
  touches its left edge and does not collide; the player at (151, 101) overlaps it by 1
  on both axes and collides.
\<close>

theorem collision_is_strict_overlap_witness:
  "overlap_len 50 150 200 = 0 \<and> \<not> hits 50 150 150 (hd grid_sprites)
   \<and> overlap_len 50 151 200 = 1 \<and> overlap_len 50 101 150 = 1 \<and> hits 50 151 101 (hd grid_sprites)
   \<and> checkCollision wide_config 150 150 None = None
   \<and> checkCollision wide_config 151 101 None = Some ''enemy1''"
proof -
  have a: "overlap_len 50 150 200 = 0" "overlap_len 50 151 200 = 1" "overlap_len 50 101 150 = 1"
    by (simp_all add: overlap_len_def)
  have b: "sprite_x (hd grid_sprites) = 200" "sprite_y (hd grid_sprites) = 150"
    by (simp_all add: grid_sprites_def)
  have c: "checkCollision wide_config 150 150 None = None"
    "checkCollision wide_config 151 101 None = Some ''enemy1''"
    by (simp_all add: checkCollision_def wide_config_def grid_sprites_def hits_def)
  show ?thesis
    using collision_is_strict_overlap [of 50 150 150 "hd grid_sprites" wide_config]
      collision_is_strict_overlap [of 50 151 101 "hd grid_sprites" wide_config]
    by (simp add: a b c)
qed

subsection \<open>The boundary check\<close>

text \<open>
  Claim C4. When the window is at least as wide and as high as a footprint, the position
  that a frame computes lies in \<open>[0, innerWidth - SPRITE_SIZE]\<close> on the x axis and in
  \<open>[0, innerHeight - SPRITE_SIZE]\<close> on the y axis, for every previous position and every
  set of held keys; and after any number of frames from a running state, one at least,
  the stored position lies in that range.
\<close>

theorem clamped_position_in_bounds:
  assumes "SPRITE_SIZE cfg \<le> innerWidth cfg" and "SPRITE_SIZE cfg \<le> innerHeight cfg"
  shows "in_bounds cfg (candidate cfg keysPressed prev)
     \<and> in_bounds cfg (position (gameLoop cfg keysPressed st))
     \<and> (\<not> truthy (activeMenu st) \<longrightarrow>
          in_bounds cfg (position (fold (tick cfg) (keysPressed # ks) st)))"
proof -
  have a: "in_bounds cfg (position (gameLoop cfg keysPressed st))"
    using candidate_in_bounds [OF assms] by (simp add: position_gameLoop)
  have "in_bounds cfg (position (fold (tick cfg) ks (gameLoop cfg keysPressed st)))"
    using a by (rule ticks_keep_in_bounds [OF assms])
  then show ?thesis
    using a candidate_in_bounds [OF assms] by (simp add: tick_def)
qed

text \<open>
  In the window of 800 by 600: from (748, 2) with right and down held the frame gives
  (750, 7), clamped on the x axis; three frames with left and up held from the origin
  stay in range.
\<close>

theorem clamped_position_in_bounds_witness:
  "SPRITE_SIZE wide_config \<le> innerWidth wide_config
   \<and> SPRITE_SIZE wide_config \<le> innerHeight wide_config
   \<and> \<not> truthy (activeMenu initial)
   \<and> candidate wide_config {''ArrowRight'', ''ArrowDown''} \<lparr>pos_x = 748, pos_y = 2\<rparr>
       = \<lparr>pos_x = 750, pos_y = 7\<rparr>
   \<and> in_bounds wide_config \<lparr>pos_x = 750, pos_y = 7\<rparr>
   \<and> in_bounds wide_config
        (position (fold (tick wide_config) (replicate 3 {''ArrowLeft'', ''ArrowUp''}) initial))"
proof -
  have h: "SPRITE_SIZE wide_config \<le> innerWidth wide_config"
    "SPRITE_SIZE wide_config \<le> innerHeight wide_config"
    by (simp_all add: wide_config_def)
  have r: "\<not> truthy (activeMenu initial)"
    by (simp add: initial_def truthy_def)
  have c: "candidate wide_config {''ArrowRight'', ''ArrowDown''} \<lparr>pos_x = 748, pos_y = 2\<rparr>
       = \<lparr>pos_x = 750, pos_y = 7\<rparr>"
    by (simp add: candidate_def wide_config_def speed_def)
  have e: "replicate 3 {''ArrowLeft'', ''ArrowUp''}
     = {''ArrowLeft'', ''ArrowUp''} # replicate 2 {''ArrowLeft'', ''ArrowUp''}"
    by (simp add: eval_nat_numeral)
  show ?thesis
    using h r c
      clamped_position_in_bounds [OF h, of "{''ArrowRight'', ''ArrowDown''}"
        "\<lparr>pos_x = 748, pos_y = 2\<rparr>" initial "[]"]
      clamped_position_in_bounds [OF h, of "{''ArrowLeft'', ''ArrowUp''}"
        "\<lparr>pos_x = 0, pos_y = 0\<rparr>" initial "replicate 2 {''ArrowLeft'', ''ArrowUp''}"]
    by (simp add: e)
qed

subsection \<open>Closing the battle screen\<close>

text \<open>
  Claim C8, as stated, fails. In the window of 800 by 600 let the loop be paused at
  (155, 150) against \<open>enemy1\<close> at (200, 150), and let the handler of that render run
  twice. The first run clears the trigger and moves the player to (145, 160). The second
  run starts with no trigger active and is not a no-op: it moves the player to
  (135, 170).
\<close>

theorem close_without_trigger_counterexample:
  "activeSprite wide_config \<lparr>position = \<lparr>pos_x = 155, pos_y = 150\<rparr>, activeMenu = Some ''enemy1''\<rparr>
     = Some (hd grid_sprites)
   \<and> onClose (hd grid_sprites)
        \<lparr>position = \<lparr>pos_x = 155, pos_y = 150\<rparr>, activeMenu = Some ''enemy1''\<rparr>
     = \<lparr>position = \<lparr>pos_x = 145, pos_y = 160\<rparr>, activeMenu = None\<rparr>
   \<and> onClose (hd grid_sprites) \<lparr>position = \<lparr>pos_x = 145, pos_y = 160\<rparr>, activeMenu = None\<rparr>
     = \<lparr>position = \<lparr>pos_x = 135, pos_y = 170\<rparr>, activeMenu = None\<rparr>
   \<and> onClose (hd grid_sprites) \<lparr>position = \<lparr>pos_x = 145, pos_y = 160\<rparr>, activeMenu = None\<rparr>
     \<noteq> \<lparr>position = \<lparr>pos_x = 145, pos_y = 160\<rparr>, activeMenu = None\<rparr>"
  by (simp add: activeSprite_def onClose_def wide_config_def grid_sprites_def)

text \<open>
  Claim C8, amended. The handler run in a state with no active trigger leaves
  \<open>activeMenu\<close> at \<open>null\<close>, so the loop is still running, and it moves each coordinate
  of the player by exactly 10, as it does from a paused state: down by 10 when the
  coordinate is less than the enemy's, up by 10 otherwise. The state is not the one
  before.
\<close>

theorem close_without_trigger:
  assumes "activeMenu st = None"
  shows "activeMenu (onClose enemy st) = None
     \<and> \<not> truthy (activeMenu (onClose enemy st))
     \<and> pos_x (position (onClose enemy st))
       = (if pos_x (position st) < sprite_x enemy
          then pos_x (position st) - 10 else pos_x (position st) + 10)
     \<and> pos_y (position (onClose enemy st))
       = (if pos_y (position st) < sprite_y enemy
          then pos_y (position st) - 10 else pos_y (position st) + 10)
     \<and> \<bar>pos_x (position (onClose enemy st)) - pos_x (position st)\<bar> = 10
     \<and> \<bar>pos_y (position (onClose enemy st)) - pos_y (position st)\<bar> = 10
     \<and> onClose enemy st \<noteq> st"
proof -
  have x: "pos_x (position (onClose enemy st))
       = (if pos_x (position st) < sprite_x enemy
          then pos_x (position st) - 10 else pos_x (position st) + 10)"
    and y: "pos_y (position (onClose enemy st))
       = (if pos_y (position st) < sprite_y enemy
          then pos_y (position st) - 10 else pos_y (position st) + 10)"
    and m: "activeMenu (onClose enemy st) = None"
    by (simp_all add: onClose_def Let_def)
  have "pos_x (position (onClose enemy st)) \<noteq> pos_x (position st)"
    unfolding x by simp
  then have "onClose enemy st \<noteq> st"
    by auto
  then show ?thesis
    using x y m by (simp add: truthy_def)
qed

text \<open>
  The second run of the counterexample: from (145, 160) with no trigger, against the
  enemy at (200, 150), the handler gives (135, 170) and the loop is running.
\<close>

theorem close_without_trigger_witness:
  "activeMenu \<lparr>position = \<lparr>pos_x = 145, pos_y = 160\<rparr>, activeMenu = None\<rparr> = None
   \<and> position (onClose (hd grid_sprites)
        \<lparr>position = \<lparr>pos_x = 145, pos_y = 160\<rparr>, activeMenu = None\<rparr>)
     = \<lparr>pos_x = 135, pos_y = 170\<rparr>
   \<and> activeMenu (onClose (hd grid_sprites)
        \<lparr>position = \<lparr>pos_x = 145, pos_y = 160\<rparr>, activeMenu = None\<rparr>) = None"
proof -
  let ?st = "\<lparr>position = \<lparr>pos_x = 145, pos_y = 160\<rparr>, activeMenu = None\<rparr>"
  have h: "activeMenu ?st = None" by simp
  have e: "sprite_x (hd grid_sprites) = 200" "sprite_y (hd grid_sprites) = 150"
    by (simp_all add: grid_sprites_def)
  have p: "position (onClose (hd grid_sprites) ?st) = \<lparr>pos_x = 135, pos_y = 170\<rparr>"
    by (simp add: onClose_def e)
  show ?thesis
    using h p close_without_trigger [OF h, of "hd grid_sprites"] by simp
qed

subsection \<open>Which obstacle a frame records\<close>

text \<open>
  Claim C2, as stated, fails. With two enemies 20 apart, 37 frames to the right and 20
  frames down bring the player to (185, 100) with the loop running. The next frame down
  puts the footprint at (185, 105), where it overlaps both enemies; the first of them in
  the order of the list is \<open>enemy1\<close>, and the frame records \<open>enemy2\<close>.
\<close>

theorem first_overlap_trigger_counterexample:
  "run crowded_config (right_then_down 37 20)
     = \<lparr>position = \<lparr>pos_x = 185, pos_y = 100\<rparr>, activeMenu = None\<rparr>
   \<and> candidate crowded_config {''ArrowDown''} \<lparr>pos_x = 185, pos_y = 100\<rparr>
     = \<lparr>pos_x = 185, pos_y = 105\<rparr>
   \<and> map sprite_id (overlapping crowded_config \<lparr>pos_x = 185, pos_y = 105\<rparr>)
     = [''enemy1'', ''enemy2'']
   \<and> activeMenu (tick crowded_config {''ArrowDown''} (run crowded_config (right_then_down 37 20)))
     = Some ''enemy2''
   \<and> activeMenu (tick crowded_config {''ArrowDown''} (run crowded_config (right_then_down 37 20)))
     \<noteq> Some (sprite_id (hd (overlapping crowded_config \<lparr>pos_x = 185, pos_y = 105\<rparr>)))"
proof -
  have a: "candidate crowded_config {''ArrowDown''} \<lparr>pos_x = 185, pos_y = 100\<rparr>
     = \<lparr>pos_x = 185, pos_y = 105\<rparr>"
    by (simp add: candidate_def crowded_config_def speed_def)
  have b: "overlapping crowded_config \<lparr>pos_x = 185, pos_y = 105\<rparr> = staticSprites crowded_config"
    by (simp add: overlapping_def crowded_config_def hits_def)
  have i: "map sprite_id (staticSprites crowded_config) = [''enemy1'', ''enemy2'']"
    "sprite_id (hd (staticSprites crowded_config)) = ''enemy1''"
    by (simp_all add: crowded_config_def)
  have c: "activeMenu (tick crowded_config {''ArrowDown''}
      \<lparr>position = \<lparr>pos_x = 185, pos_y = 100\<rparr>, activeMenu = None\<rparr>) = Some ''enemy2''"
    by (simp add: tick_def truthy_def gameLoop_def a)
      (simp add: checkCollision_def crowded_config_def hits_def)
  show ?thesis
    by (simp add: run_crowded a b c i)
qed

text \<open>
  Claim C2, amended. On a frame in a running state whose new footprint overlaps at least
  one obstacle, \<open>activeMenu\<close> becomes the id of the last overlapping obstacle in the
  order of the list (each overlapping obstacle overwrites the value); the loop is then
  paused when that id is not the empty string, which \<open>if (activeMenu)\<close> takes as false.
\<close>

theorem tick_records_last_overlap:
  assumes "\<not> truthy (activeMenu st)"
    and "overlapping cfg (candidate cfg keysPressed (position st)) \<noteq> []"
  shows "activeMenu (tick cfg keysPressed st)
       = Some (sprite_id (last (overlapping cfg (candidate cfg keysPressed (position st)))))
     \<and> (sprite_id (last (overlapping cfg (candidate cfg keysPressed (position st)))) \<noteq> []
          \<longrightarrow> truthy (activeMenu (tick cfg keysPressed st)))"
  using assms by (simp add: tick_def activeMenu_gameLoop truthy_def)

text \<open>The frame of the counterexample records \<open>enemy2\<close> and pauses the loop.\<close>

theorem tick_records_last_overlap_witness:
  "\<not> truthy (activeMenu \<lparr>position = \<lparr>pos_x = 185, pos_y = 100\<rparr>, activeMenu = None\<rparr>)
   \<and> map sprite_id (overlapping crowded_config
        (candidate crowded_config {''ArrowDown''} \<lparr>pos_x = 185, pos_y = 100\<rparr>))
      = [''enemy1'', ''enemy2'']
   \<and> activeMenu (tick crowded_config {''ArrowDown''}
        \<lparr>position = \<lparr>pos_x = 185, pos_y = 100\<rparr>, activeMenu = None\<rparr>) = Some ''enemy2''
   \<and> truthy (activeMenu (tick crowded_config {''ArrowDown''}
        \<lparr>position = \<lparr>pos_x = 185, pos_y = 100\<rparr>, activeMenu = None\<rparr>))"
proof -
  let ?st = "\<lparr>position = \<lparr>pos_x = 185, pos_y = 100\<rparr>, activeMenu = None\<rparr>"
  have r: "\<not> truthy (activeMenu ?st)"
    by (simp add: truthy_def)
  have a: "candidate crowded_config {''ArrowDown''} \<lparr>pos_x = 185, pos_y = 100\<rparr>
     = \<lparr>pos_x = 185, pos_y = 105\<rparr>"
    by (simp add: candidate_def crowded_config_def speed_def)
  have b: "overlapping crowded_config \<lparr>pos_x = 185, pos_y = 105\<rparr> = staticSprites crowded_config"
    by (simp add: overlapping_def crowded_config_def hits_def)
  have o: "overlapping crowded_config (candidate crowded_config {''ArrowDown''} (position ?st)) \<noteq> []"
    by (simp add: a b) (simp add: crowded_config_def)
  have ids: "map sprite_id (overlapping crowded_config
        (candidate crowded_config {''ArrowDown''} \<lparr>pos_x = 185, pos_y = 100\<rparr>))
      = [''enemy1'', ''enemy2'']"
    by (simp add: a b) (simp add: crowded_config_def)
  have l: "sprite_id (last (overlapping crowded_config
        (candidate crowded_config {''ArrowDown''} \<lparr>pos_x = 185, pos_y = 100\<rparr>))) = ''enemy2''"
    by (simp add: a b) (simp add: crowded_config_def)
  show ?thesis
    using r ids tick_records_last_overlap [OF r o]
    by (simp add: l truthy_def)
qed

subsection \<open>The position on a frame that collides\<close>

text \<open>
  Claim C9. A frame in a running state that detects a collision still stores the new,
  clamped position. The obstacle whose id the frame records overlaps the stored position
  (it is the one that \<open>activeSprite\<close> finds when the ids of the obstacles are distinct),
  and while the loop is paused further frames leave the state as it is.
\<close>

theorem collision_commits_position:
  assumes "\<not> truthy (activeMenu st)"
    and "overlapping cfg (candidate cfg keysPressed (position st)) \<noteq> []"
  shows "position (tick cfg keysPressed st) = candidate cfg keysPressed (position st)
     \<and> (\<exists>s \<in> set (staticSprites cfg).
          activeMenu (tick cfg keysPressed st) = Some (sprite_id s)
          \<and> hits (SPRITE_SIZE cfg) (pos_x (position (tick cfg keysPressed st)))
                (pos_y (position (tick cfg keysPressed st))) s
          \<and> (distinct (map sprite_id (staticSprites cfg))
               \<longrightarrow> activeSprite cfg (tick cfg keysPressed st) = Some s))
     \<and> (truthy (activeMenu (tick cfg keysPressed st))
          \<longrightarrow> fold (tick cfg) ks (tick cfg keysPressed st) = tick cfg keysPressed st)"
proof -
  let ?new = "candidate cfg keysPressed (position st)"
  let ?t = "last (overlapping cfg ?new)"
  have p: "position (tick cfg keysPressed st) = ?new"
    using assms(1) by (simp add: tick_def position_gameLoop)
  have m: "activeMenu (tick cfg keysPressed st) = Some (sprite_id ?t)"
    using assms by (simp add: tick_def activeMenu_gameLoop)
  have t: "?t \<in> set (staticSprites cfg)" "hits (SPRITE_SIZE cfg) (pos_x ?new) (pos_y ?new) ?t"
    using last_overlapping [OF assms(2)] by simp_all
  have f: "distinct (map sprite_id (staticSprites cfg))
      \<longrightarrow> activeSprite cfg (tick cfg keysPressed st) = Some ?t"
    using t(1) by (simp add: activeSprite_def m find_by_id)
  have "\<exists>s \<in> set (staticSprites cfg).
          activeMenu (tick cfg keysPressed st) = Some (sprite_id s)
          \<and> hits (SPRITE_SIZE cfg) (pos_x (position (tick cfg keysPressed st)))
                (pos_y (position (tick cfg keysPressed st))) s
          \<and> (distinct (map sprite_id (staticSprites cfg))
               \<longrightarrow> activeSprite cfg (tick cfg keysPressed st) = Some s)"
    using t m f unfolding p by blast
  then show ?thesis
    using p paused_ticks_idle [of "tick cfg keysPressed st" cfg ks] by simp
qed

text \<open>
  From (150, 150) a frame to the right stores (155, 150), which overlaps the enemy at
  (200, 150), and records that enemy.
\<close>

theorem collision_commits_position_witness:
  "\<not> truthy (activeMenu \<lparr>position = \<lparr>pos_x = 150, pos_y = 150\<rparr>, activeMenu = None\<rparr>)
   \<and> map sprite_id (overlapping wide_config
        (candidate wide_config {''ArrowRight''} \<lparr>pos_x = 150, pos_y = 150\<rparr>)) = [''enemy1'']
   \<and> position (tick wide_config {''ArrowRight''}
        \<lparr>position = \<lparr>pos_x = 150, pos_y = 150\<rparr>, activeMenu = None\<rparr>)
      = \<lparr>pos_x = 155, pos_y = 150\<rparr>
   \<and> (\<exists>s \<in> set (staticSprites wide_config).
         activeMenu (tick wide_config {''ArrowRight''}
           \<lparr>position = \<lparr>pos_x = 150, pos_y = 150\<rparr>, activeMenu = None\<rparr>) = Some (sprite_id s)
         \<and> hits 50 155 150 s)"
proof -
  let ?st = "\<lparr>position = \<lparr>pos_x = 150, pos_y = 150\<rparr>, activeMenu = None\<rparr>"
  have r: "\<not> truthy (activeMenu ?st)"
    by (simp add: truthy_def)
  have a: "candidate wide_config {''ArrowRight''} \<lparr>pos_x = 150, pos_y = 150\<rparr>
     = \<lparr>pos_x = 155, pos_y = 150\<rparr>"
    by (simp add: candidate_def wide_config_def speed_def)
  have b: "overlapping wide_config \<lparr>pos_x = 155, pos_y = 150\<rparr> = [hd grid_sprites]"
    by (simp add: overlapping_def wide_config_def grid_sprites_def hits_def)
  have i: "sprite_id (hd grid_sprites) = ''enemy1''"
    by (simp add: grid_sprites_def)
  have z: "SPRITE_SIZE wide_config = 50"
    by (simp add: wide_config_def)
  have o: "overlapping wide_config (candidate wide_config {''ArrowRight''} (position ?st)) \<noteq> []"
    by (simp add: a b)
  show ?thesis
    using r collision_commits_position [OF r o, of "[]"]
    by (auto simp: a b i z)
qed

subsection \<open>The nudge\<close>

text \<open>
  Claim C10. Closing the battle screen moves each coordinate of the player by exactly 10:
  down by 10 when it is less than the enemy's coordinate, up by 10 otherwise (also when
  they are equal), and clears the trigger. No boundary check follows: there is a window
  at least as large as a footprint and a sequence of frames from the initial state after
  which the player is within the bounds and closing puts it outside.
\<close>

theorem dismiss_nudges_by_ten:
  assumes "truthy (activeMenu st)" and "activeSprite cfg st = Some enemy"
  shows "pos_x (position (onClose enemy st))
       = (if pos_x (position st) < sprite_x enemy
          then pos_x (position st) - 10 else pos_x (position st) + 10)
     \<and> pos_y (position (onClose enemy st))
       = (if pos_y (position st) < sprite_y enemy
          then pos_y (position st) - 10 else pos_y (position st) + 10)
     \<and> activeMenu (onClose enemy st) = None
     \<and> (\<exists>cfg' frames enemy'.
          SPRITE_SIZE cfg' \<le> innerWidth cfg' \<and> SPRITE_SIZE cfg' \<le> innerHeight cfg'
          \<and> truthy (activeMenu (run cfg' frames))
          \<and> activeSprite cfg' (run cfg' frames) = Some enemy'
          \<and> in_bounds cfg' (position (run cfg' frames))
          \<and> \<not> in_bounds cfg' (position (onClose enemy' (run cfg' frames))))"
proof -
  let ?cfg = narrow_config and ?frames = "right_then_down 89 21"
  let ?enemy = "\<lparr>sprite_id = ''enemy2'', sprite_x = 400, sprite_y = 150, color = ''blue''\<rparr>"
  have s: "activeSprite ?cfg (run ?cfg ?frames) = Some ?enemy"
    unfolding run_narrow by (simp add: activeSprite_def narrow_config_def grid_sprites_def)
  have d: "onClose ?enemy (run ?cfg ?frames)
      = \<lparr>position = \<lparr>pos_x = 455, pos_y = 95\<rparr>, activeMenu = None\<rparr>"
    unfolding run_narrow by (simp add: onClose_def)
  have "SPRITE_SIZE ?cfg \<le> innerWidth ?cfg \<and> SPRITE_SIZE ?cfg \<le> innerHeight ?cfg
      \<and> truthy (activeMenu (run ?cfg ?frames))
      \<and> activeSprite ?cfg (run ?cfg ?frames) = Some ?enemy
      \<and> in_bounds ?cfg (position (run ?cfg ?frames))
      \<and> \<not> in_bounds ?cfg (position (onClose ?enemy (run ?cfg ?frames)))"
    unfolding d s unfolding run_narrow
    by (simp add: truthy_def in_bounds_def narrow_config_def)
  then have "\<exists>cfg' frames enemy'.
          SPRITE_SIZE cfg' \<le> innerWidth cfg' \<and> SPRITE_SIZE cfg' \<le> innerHeight cfg'
          \<and> truthy (activeMenu (run cfg' frames))
          \<and> activeSprite cfg' (run cfg' frames) = Some enemy'
          \<and> in_bounds cfg' (position (run cfg' frames))
          \<and> \<not> in_bounds cfg' (position (onClose enemy' (run cfg' frames)))"
    by blast
  then show ?thesis
    by (simp add: onClose_def Let_def)
qed

text \<open>
  In the window of 500 by 600, 89 frames to the right and 21 frames down end at
  (445, 105) against \<open>enemy2\<close> at (400, 150). Closing gives (455, 95), and 455 is beyond
  the bound 450 of the x axis.
\<close>

theorem dismiss_nudges_by_ten_witness:
  "truthy (activeMenu (run narrow_config (right_then_down 89 21)))
   \<and> activeSprite narrow_config (run narrow_config (right_then_down 89 21))
       = Some \<lparr>sprite_id = ''enemy2'', sprite_x = 400, sprite_y = 150, color = ''blue''\<rparr>
   \<and> position (run narrow_config (right_then_down 89 21)) = \<lparr>pos_x = 445, pos_y = 105\<rparr>
   \<and> pos_x (position (onClose
        \<lparr>sprite_id = ''enemy2'', sprite_x = 400, sprite_y = 150, color = ''blue''\<rparr>
        (run narrow_config (right_then_down 89 21)))) = 455
   \<and> pos_y (position (onClose
        \<lparr>sprite_id = ''enemy2'', sprite_x = 400, sprite_y = 150, color = ''blue''\<rparr>
        (run narrow_config (right_then_down 89 21)))) = 95
   \<and> innerWidth narrow_config - SPRITE_SIZE narrow_config = 450"
proof -
  let ?st = "run narrow_config (right_then_down 89 21)"
  have t: "truthy (activeMenu ?st)"
    unfolding run_narrow by (simp add: truthy_def)
  have s: "activeSprite narrow_config ?st
       = Some \<lparr>sprite_id = ''enemy2'', sprite_x = 400, sprite_y = 150, color = ''blue''\<rparr>"
    unfolding run_narrow by (simp add: activeSprite_def narrow_config_def grid_sprites_def)
  have p: "position ?st = \<lparr>pos_x = 445, pos_y = 105\<rparr>"
    unfolding run_narrow by simp
  have w: "innerWidth narrow_config - SPRITE_SIZE narrow_config = 450"
    by (simp add: narrow_config_def)
  show ?thesis
    using t s w dismiss_nudges_by_ten [OF t s]
    by (simp add: p)
qed

section \<open>Properties of the keyword matcher\<close>

subsection \<open>Strings\<close>

lemma startsWith_iff: "startsWith hay needle \<longleftrightarrow> (\<exists>rest. hay = needle @ rest)"
  by (induction hay needle rule: startsWith.induct) auto

lemma includes_str_iff: "includes_str hay needle \<longleftrightarrow> (\<exists>before rest. hay = before @ needle @ rest)"
proof (induction hay)
  case Nil
  then show ?case by auto
next
  case (Cons h hs)
  show ?case
  proof
    assume "includes_str (h # hs) needle"
    then consider "startsWith (h # hs) needle" | "includes_str hs needle" by auto
    then show "\<exists>before rest. h # hs = before @ needle @ rest"
    proof cases
      case 1
      then obtain rest where "h # hs = needle @ rest" by (auto simp: startsWith_iff)
      then have "h # hs = [] @ needle @ rest" by simp
      then show ?thesis by blast
    next
      case 2
      then obtain before rest where "hs = before @ needle @ rest" using Cons.IH by auto
      then have "h # hs = (h # before) @ needle @ rest" by simp
      then show ?thesis by blast
    qed
  next
    assume "\<exists>before rest. h # hs = before @ needle @ rest"
    then obtain before rest where e: "h # hs = before @ needle @ rest" by auto
    show "includes_str (h # hs) needle"
    proof (cases before)
      case Nil
      then have "startsWith (h # hs) needle" using e by (auto simp: startsWith_iff)
      then show ?thesis by simp
    next
      case (Cons b bs)
      then have "hs = bs @ needle @ rest" using e by simp
      then have "includes_str hs needle" using Cons.IH by blast
      then show ?thesis by simp
    qed
  qed
qed

lemma includes_str_subset: "includes_str hay needle \<Longrightarrow> set needle \<subseteq> set hay"
  by (auto simp: includes_str_iff)

lemma all_dropWhile: "(\<forall>x \<in> set (dropWhile P xs). P x) \<longleftrightarrow> (\<forall>x \<in> set xs. P x)"
  by (induction xs) auto

lemma trim_eq_Nil: "trim s = [] \<longleftrightarrow> (\<forall>c \<in> set s. is_space c)"
  by (simp add: trim_def all_dropWhile)

lemma trim_blank: "\<forall>c \<in> set s. is_space c \<Longrightarrow> trim s = []"
  by (simp add: trim_eq_Nil)

lemma split_from_blank:
  "\<forall>c \<in> set s. is_space c \<Longrightarrow> set (split_from in_run cur s) \<subseteq> {cur, []}"
  by (induction s arbitrary: in_run cur) auto

lemma split_ws_blank: "\<forall>c \<in> set s. is_space c \<Longrightarrow> set (split_ws s) \<subseteq> {[]}"
  using split_from_blank [of s False "[]"] by (simp add: split_ws_def)

lemma split_from_word:
  "\<forall>c \<in> set w. \<not> is_space c \<Longrightarrow>
     split_from in_run cur (w @ rest) = split_from (if w = [] then in_run else False) (cur @ w) rest"
  by (induction w arbitrary: in_run cur) auto

lemma split_from_word_end:
  assumes "\<forall>c \<in> set w. \<not> is_space c" and "w \<noteq> []" and "rest = [] \<or> is_space (hd rest)"
  shows "cur @ w \<in> set (split_from in_run cur (w @ rest))"
proof (cases rest)
  case Nil
  then show ?thesis
    using assms(1,2) split_from_word [of w in_run cur "[]"] by simp
next
  case (Cons c cs)
  then show ?thesis
    using assms split_from_word [of w in_run cur "c # cs"] by simp
qed

lemma split_from_after_space:
  "is_space c \<Longrightarrow> in_run \<longrightarrow> cur = [] \<Longrightarrow>
     set (split_from True [] rest) \<subseteq> set (split_from in_run cur (before @ c # rest))"
  by (induction before arbitrary: in_run cur) auto

text \<open>
  A word without white space that stands at the start of the string or after white
  space, and at the end of the string or before white space, is one of the pieces.
\<close>

lemma split_ws_word:
  assumes "\<forall>c \<in> set w. \<not> is_space c" and "w \<noteq> []"
    and "before = [] \<or> is_space (last before)" and "rest = [] \<or> is_space (hd rest)"
  shows "w \<in> set (split_ws (before @ w @ rest))"
proof (cases "before = []")
  case True
  then show ?thesis
    using split_from_word_end [OF assms(1,2,4), of "[]" False] by (simp add: split_ws_def)
next
  case False
  then have sp: "is_space (last before)" using assms(3) by simp
  have "before = butlast before @ [last before]" using False by simp
  then have e: "before @ w @ rest = butlast before @ last before # (w @ rest)"
    by (metis append_Cons append_Nil append_assoc)
  have "w \<in> set (split_from True [] (w @ rest))"
    using split_from_word_end [OF assms(1,2,4), of "[]" True] by simp
  then show ?thesis
    unfolding split_ws_def e using split_from_after_space [OF sp, of False "[]"] by blast
qed

subsection \<open>The loops as sums\<close>

lemma fold_add_points:
  "fold (\<lambda>word sc. sc + f word) words score = score + (\<Sum>word \<leftarrow> words. (f word :: nat))"
  by (induction words arbitrary: score) simp_all

lemma tag_step_total:
  "tag_step toLowerCase inputLower words tag score
     = score + tag_total toLowerCase inputLower words tag"
  by (simp add: tag_step_def tag_total_def Let_def fold_add_points)

lemma fold_tag_step:
  "fold (tag_step toLowerCase inputLower words) ts score
     = score + (\<Sum>tag \<leftarrow> ts. tag_total toLowerCase inputLower words tag)"
  by (induction ts arbitrary: score) (simp_all add: tag_step_total)

lemma bg_score_total:
  "bg_score toLowerCase (toLowerCase userInput) (split_ws (toLowerCase userInput)) bg
     = total_score toLowerCase userInput bg"
  by (simp add: bg_score_def total_score_def fold_tag_step)

lemma sum_list_map_ge:
  "x \<in> set xs \<Longrightarrow> (f x :: nat) \<le> (\<Sum>y \<leftarrow> xs. f y)"
  by (induction xs) auto

lemma tag_total_le_total:
  "tag \<in> set (tags bg) \<Longrightarrow>
     tag_total toLowerCase (toLowerCase userInput) (split_ws (toLowerCase userInput)) tag
       \<le> total_score toLowerCase userInput bg"
  unfolding total_score_def by (rule sum_list_map_ge)

lemma word_points_le_tag_total:
  assumes "word \<in> set words"
  shows "word_points (toLowerCase tag) word \<le> tag_total toLowerCase inputLower words tag"
proof -
  have "word_points (toLowerCase tag) word \<le> (\<Sum>w \<leftarrow> words. word_points (toLowerCase tag) w)"
    using assms by (rule sum_list_map_ge)
  then show ?thesis by (simp add: tag_total_def)
qed

text \<open>
  The loop over the catalog: the pair is unchanged when no score exceeds the starting
  score, and otherwise holds the first record with the greatest score.
\<close>

lemma fold_best_step:
  "((\<forall>b \<in> set bgs. sc b \<le> (s0 :: nat)) \<longrightarrow> fold (\<lambda>bg best. if sc bg > snd best then (bg, sc bg) else best) bgs (m0, s0) = (m0, s0))
   \<and> (\<not> (\<forall>b \<in> set bgs. sc b \<le> s0) \<longrightarrow>
        (\<exists>before b rest. bgs = before @ b # rest
           \<and> fold (\<lambda>bg best. if sc bg > snd best then (bg, sc bg) else best) bgs (m0, s0) = (b, sc b)
           \<and> s0 < sc b
           \<and> (\<forall>x \<in> set before. sc x < sc b)
           \<and> (\<forall>x \<in> set rest. sc x \<le> sc b)))"
  (is "?none bgs \<and> ?some bgs")
proof (induction bgs rule: rev_induct)
  case Nil
  then show ?case by simp
next
  case (snoc a bgs)
  let ?f = "\<lambda>bg best. if sc bg > snd best then (bg, sc bg) else best"
  let ?P = "\<lambda>xs before b rest. xs = before @ b # rest
           \<and> fold ?f xs (m0, s0) = (b, sc b) \<and> s0 < sc b
           \<and> (\<forall>x \<in> set before. sc x < sc b) \<and> (\<forall>x \<in> set rest. sc x \<le> sc b)"
  have step: "fold ?f (bgs @ [a]) (m0, s0) = ?f a (fold ?f bgs (m0, s0))"
    by simp
  show ?case
  proof (cases "\<forall>b \<in> set bgs. sc b \<le> s0")
    case True
    then have f: "fold ?f bgs (m0, s0) = (m0, s0)" using snoc.IH by blast
    show ?thesis
    proof (cases "sc a \<le> s0")
      case le: True
      then have "\<forall>b \<in> set (bgs @ [a]). sc b \<le> s0" using True by simp
      moreover have "fold ?f (bgs @ [a]) (m0, s0) = (m0, s0)"
        unfolding step f using le by simp
      ultimately show ?thesis by blast
    next
      case gt: False
      have "fold ?f (bgs @ [a]) (m0, s0) = (a, sc a)"
        unfolding step f using gt by simp
      moreover have "\<forall>x \<in> set bgs. sc x < sc a" using True gt by fastforce
      ultimately have "?P (bgs @ [a]) bgs a []" using gt by simp
      then have "\<exists>before b rest. ?P (bgs @ [a]) before b rest" by blast
      moreover have "\<not> (\<forall>b \<in> set (bgs @ [a]). sc b \<le> s0)" using gt by simp
      ultimately show ?thesis by blast
    qed
  next
    case False
    then have "\<exists>before b rest. ?P bgs before b rest" using snoc.IH by blast
    then obtain before b rest where h: "?P bgs before b rest" by blast
    then have f: "fold ?f bgs (m0, s0) = (b, sc b)" by blast
    have ne: "\<not> (\<forall>b \<in> set (bgs @ [a]). sc b \<le> s0)" using False by simp
    show ?thesis
    proof (cases "sc a \<le> sc b")
      case le: True
      have "fold ?f (bgs @ [a]) (m0, s0) = (b, sc b)"
        unfolding step f using le by simp
      then have "?P (bgs @ [a]) before b (rest @ [a])" using h le by simp
      then have "\<exists>before b rest. ?P (bgs @ [a]) before b rest" by blast
      then show ?thesis using ne by blast
    next
      case gt: False
      have "fold ?f (bgs @ [a]) (m0, s0) = (a, sc a)"
        unfolding step f using gt by simp
      moreover have "\<forall>x \<in> set bgs. sc x < sc a" using h gt by fastforce
      moreover have "s0 < sc a" using h gt by simp
      ultimately have "?P (bgs @ [a]) bgs a []" by simp
      then have "\<exists>before b rest. ?P (bgs @ [a]) before b rest" by blast
      then show ?thesis using ne by blast
    qed
  qed
qed

lemma keywordMatch_loop_fold:
  "keywordMatch_loop toLowerCase bgs dflt userInput
     = fold (\<lambda>bg best. if total_score toLowerCase userInput bg > snd best
                         then (bg, total_score toLowerCase userInput bg) else best) bgs (dflt, 0)"
  by (simp add: keywordMatch_loop_def best_step_def [abs_def] Let_def bg_score_total cong: if_cong)

lemma keywordMatch_default:
  assumes "\<forall>b \<in> set bgs. total_score toLowerCase userInput b = 0"
  shows "keywordMatch_loop toLowerCase bgs dflt userInput = (dflt, 0)"
    and "keywordMatch toLowerCase bgs dflt userInput = dflt"
proof -
  have "\<forall>b \<in> set bgs. total_score toLowerCase userInput b \<le> 0" using assms by simp
  then show "keywordMatch_loop toLowerCase bgs dflt userInput = (dflt, 0)"
    unfolding keywordMatch_loop_fold
    using fold_best_step [of bgs "total_score toLowerCase userInput" 0 dflt] by blast
  then show "keywordMatch toLowerCase bgs dflt userInput = dflt"
    by (simp add: keywordMatch_def)
qed

lemma keywordMatch_best:
  assumes "\<not> (\<forall>b \<in> set bgs. total_score toLowerCase userInput b = 0)"
  shows "\<exists>before b rest. bgs = before @ b # rest
           \<and> keywordMatch_loop toLowerCase bgs dflt userInput
               = (b, total_score toLowerCase userInput b)
           \<and> 0 < total_score toLowerCase userInput b
           \<and> (\<forall>x \<in> set before.
                 total_score toLowerCase userInput x < total_score toLowerCase userInput b)
           \<and> (\<forall>x \<in> set rest.
                 total_score toLowerCase userInput x \<le> total_score toLowerCase userInput b)"
proof -
  have "\<not> (\<forall>b \<in> set bgs. total_score toLowerCase userInput b \<le> 0)" using assms by simp
  then show ?thesis
    unfolding keywordMatch_loop_fold
    using fold_best_step [of bgs "total_score toLowerCase userInput" 0 dflt] by blast
qed

lemma keywordMatch_member: "keywordMatch toLowerCase bgs dflt userInput \<in> insert dflt (set bgs)"
proof (cases "\<forall>b \<in> set bgs. total_score toLowerCase userInput b = 0")
  case True
  then show ?thesis by (simp add: keywordMatch_default)
next
  case False
  then obtain before b rest where "bgs = before @ b # rest"
      "keywordMatch_loop toLowerCase bgs dflt userInput = (b, total_score toLowerCase userInput b)"
    using keywordMatch_best [of bgs toLowerCase userInput dflt] by blast
  then show ?thesis by (simp add: keywordMatch_def)
qed

lemma loop_score_ge:
  assumes "bg \<in> set bgs"
  shows "total_score toLowerCase userInput bg
           \<le> snd (keywordMatch_loop toLowerCase bgs dflt userInput)"
proof (cases "\<forall>b \<in> set bgs. total_score toLowerCase userInput b = 0")
  case True
  then show ?thesis using assms by simp
next
  case False
  then obtain before b rest where h: "bgs = before @ b # rest"
      "keywordMatch_loop toLowerCase bgs dflt userInput = (b, total_score toLowerCase userInput b)"
      "\<forall>x \<in> set before. total_score toLowerCase userInput x < total_score toLowerCase userInput b"
      "\<forall>x \<in> set rest. total_score toLowerCase userInput x \<le> total_score toLowerCase userInput b"
    using keywordMatch_best [of bgs toLowerCase userInput dflt] by blast
  have "bg \<in> set before \<or> bg = b \<or> bg \<in> set rest" using assms h(1) by auto
  then have "total_score toLowerCase userInput bg \<le> total_score toLowerCase userInput b"
    using h(3,4) by (auto intro: less_imp_le)
  then show ?thesis by (simp add: h(2))
qed

subsection \<open>The score and the record returned\<close>

text \<open>
  Claim C1, as stated, fails: the score of the loop is not the reference score of the
  specification. For the input \<open>space space\<close> and the record with the tags \<open>space\<close>
  and \<open>nebula\<close>, the loop adds 10 for each of the two words and 5 for the phrase, 25 in
  all; the reference counts a rule once for a tag, whatever the number of words that
  meet it, and gives 10 + 3 + 5 = 18. For the input \<open>space\<close> the loop gives 10 + 5 = 15:
  a word that equals the tag takes the first branch and never the 3 of a substring,
  which the reference adds.
\<close>

theorem reference_score_counterexample:
  "split_ws (sample_toLowerCase (ascii ''space space'')) = [ascii ''space'', ascii ''space'']
   \<and> bg_score sample_toLowerCase (sample_toLowerCase (ascii ''space space''))
        (split_ws (sample_toLowerCase (ascii ''space space''))) space_bg = 25
   \<and> spec_score sample_toLowerCase (ascii ''space space'') space_bg = 18
   \<and> split_ws (sample_toLowerCase (ascii ''space'')) = [ascii ''space'']
   \<and> bg_score sample_toLowerCase (sample_toLowerCase (ascii ''space''))
        (split_ws (sample_toLowerCase (ascii ''space''))) space_bg = 15
   \<and> spec_score sample_toLowerCase (ascii ''space'') space_bg = 18
   \<and> bg_score sample_toLowerCase (sample_toLowerCase (ascii ''space space''))
        (split_ws (sample_toLowerCase (ascii ''space space''))) space_bg
       \<noteq> spec_score sample_toLowerCase (ascii ''space space'') space_bg"
  by code_simp

text \<open>
  Claim C1, amended. The score of a record is the sum, over every tag and every input
  word (each occurrence of a word counts), of 10 if the word equals the lower-cased tag,
  otherwise 3 if the word is longer than 3 characters and a substring of the lower-cased
  tag, otherwise 3 if the lower-cased tag is longer than 3 characters and a substring of
  the word; plus, for every tag, 5 if the lower-cased tag is longer than 3 characters
  and a substring of the lower-cased input. The record returned is the default when
  every record scores 0, and otherwise the first record in the order of the catalog
  whose score is the greatest: the records before it score strictly less, the records
  after it no more. This holds whatever \<open>toLowerCase\<close> computes.
\<close>

theorem keywordMatch_scores_and_selects:
  "bg_score toLowerCase (toLowerCase userInput) (split_ws (toLowerCase userInput)) bg
     = total_score toLowerCase userInput bg
   \<and> ((\<forall>b \<in> set backgrounds. total_score toLowerCase userInput b = 0)
        \<longrightarrow> keywordMatch_loop toLowerCase backgrounds dflt userInput = (dflt, 0)
          \<and> keywordMatch toLowerCase backgrounds dflt userInput = dflt)
   \<and> ((\<exists>b \<in> set backgrounds. 0 < total_score toLowerCase userInput b)
        \<longrightarrow> (\<exists>before b rest. backgrounds = before @ b # rest
               \<and> keywordMatch_loop toLowerCase backgrounds dflt userInput
                   = (b, total_score toLowerCase userInput b)
               \<and> keywordMatch toLowerCase backgrounds dflt userInput = b
               \<and> 0 < total_score toLowerCase userInput b
               \<and> (\<forall>x \<in> set before.
                     total_score toLowerCase userInput x < total_score toLowerCase userInput b)
               \<and> (\<forall>x \<in> set rest.
                     total_score toLowerCase userInput x \<le> total_score toLowerCase userInput b)))"
proof (intro conjI impI)
  show "bg_score toLowerCase (toLowerCase userInput) (split_ws (toLowerCase userInput)) bg
      = total_score toLowerCase userInput bg"
    by (rule bg_score_total)
next
  assume "\<forall>b \<in> set backgrounds. total_score toLowerCase userInput b = 0"
  then show "keywordMatch_loop toLowerCase backgrounds dflt userInput = (dflt, 0)"
    and "keywordMatch toLowerCase backgrounds dflt userInput = dflt"
    by (rule keywordMatch_default)+
next
  assume "\<exists>b \<in> set backgrounds. 0 < total_score toLowerCase userInput b"
  then have "\<not> (\<forall>b \<in> set backgrounds. total_score toLowerCase userInput b = 0)" by auto
  then obtain before b rest where h: "backgrounds = before @ b # rest"
      "keywordMatch_loop toLowerCase backgrounds dflt userInput
         = (b, total_score toLowerCase userInput b)"
      "0 < total_score toLowerCase userInput b"
      "\<forall>x \<in> set before. total_score toLowerCase userInput x < total_score toLowerCase userInput b"
      "\<forall>x \<in> set rest. total_score toLowerCase userInput x \<le> total_score toLowerCase userInput b"
    using keywordMatch_best [of backgrounds toLowerCase userInput dflt] by blast
  have "keywordMatch toLowerCase backgrounds dflt userInput = b"
    using h(2) by (simp add: keywordMatch_def)
  then show "\<exists>before b rest. backgrounds = before @ b # rest
               \<and> keywordMatch_loop toLowerCase backgrounds dflt userInput
                   = (b, total_score toLowerCase userInput b)
               \<and> keywordMatch toLowerCase backgrounds dflt userInput = b
               \<and> 0 < total_score toLowerCase userInput b
               \<and> (\<forall>x \<in> set before.
                     total_score toLowerCase userInput x < total_score toLowerCase userInput b)
               \<and> (\<forall>x \<in> set rest.
                     total_score toLowerCase userInput x \<le> total_score toLowerCase userInput b)"
    using h by blast
qed

text \<open>
  For \<open>space space\<close> the three sample records score 0, 25 and 0 and the second is
  returned; for \<open>a day out\<close> every record scores 0 and the default is returned.
\<close>

theorem keywordMatch_scores_and_selects_witness:
  "map (total_score sample_toLowerCase (ascii ''space space'')) sample_backgrounds = [0, 25, 0]
   \<and> (\<exists>b \<in> set sample_backgrounds. 0 < total_score sample_toLowerCase (ascii ''space space'') b)
   \<and> keywordMatch sample_toLowerCase sample_backgrounds plain_bg (ascii ''space space'')
       = space_bg
   \<and> (\<exists>before b rest. sample_backgrounds = before @ b # rest
        \<and> keywordMatch sample_toLowerCase sample_backgrounds plain_bg (ascii ''space space'') = b
        \<and> (\<forall>x \<in> set before. total_score sample_toLowerCase (ascii ''space space'') x
              < total_score sample_toLowerCase (ascii ''space space'') b)
        \<and> (\<forall>x \<in> set rest. total_score sample_toLowerCase (ascii ''space space'') x
              \<le> total_score sample_toLowerCase (ascii ''space space'') b))
   \<and> map (total_score sample_toLowerCase (ascii ''a day out'')) sample_backgrounds = [0, 0, 0]
   \<and> keywordMatch sample_toLowerCase sample_backgrounds city_bg (ascii ''a day out'') = city_bg"
proof -
  have t: "map (total_score sample_toLowerCase (ascii ''space space'')) sample_backgrounds
      = [0, 25, 0]"
    by code_simp
  have h: "\<exists>b \<in> set sample_backgrounds. 0 < total_score sample_toLowerCase (ascii ''space space'') b"
    by code_simp
  have k: "keywordMatch sample_toLowerCase sample_backgrounds plain_bg (ascii ''space space'')
      = space_bg"
    by code_simp
  have m: "map (total_score sample_toLowerCase (ascii ''a day out'')) sample_backgrounds
      = [0, 0, 0]"
    by code_simp
  have z: "\<forall>b \<in> set sample_backgrounds. total_score sample_toLowerCase (ascii ''a day out'') b = 0"
    by code_simp
  show ?thesis
    using t h k m z
      keywordMatch_scores_and_selects [of sample_toLowerCase "ascii ''space space''" space_bg
        sample_backgrounds plain_bg]
      keywordMatch_scores_and_selects [of sample_toLowerCase "ascii ''a day out''" space_bg
        sample_backgrounds city_bg]
    by blast
qed

subsection \<open>An exact word\<close>

text \<open>
  Claim C7, as stated, fails. The input \<open>A\<close>, U+FEFF, \<open>\<Sigma>\<close> holds the tag \<open>\<Sigma>\<close> as a
  whole word, since U+FEFF is white space. \<open>toLowerCase\<close> turns the input into \<open>a\<close>,
  U+FEFF, U+03C2: the \<open>\<Sigma>\<close> is in final position, because the case mapping ignores
  U+FEFF and finds the cased letter \<open>A\<close> before it. The tag alone becomes U+03C3. The
  words of the input are \<open>a\<close> and U+03C2, neither equals the lower-cased tag, and the
  score of the record is 0.
\<close>

theorem exact_word_counterexample:
  "[0x3A3] \<in> set (tags sigma_bg)
   \<and> ascii ''A'' @ [0xFEFF] @ [0x3A3] = [0x41, 0xFEFF, 0x3A3]
   \<and> is_space 0xFEFF \<and> \<not> is_space 0x3A3
   \<and> sample_toLowerCase [0x41, 0xFEFF, 0x3A3] = [0x61, 0xFEFF, 0x3C2]
   \<and> sample_toLowerCase [0x3A3] = [0x3C3]
   \<and> split_ws [0x61, 0xFEFF, 0x3C2] = [[0x61], [0x3C2]]
   \<and> bg_score sample_toLowerCase (sample_toLowerCase [0x41, 0xFEFF, 0x3A3])
        (split_ws (sample_toLowerCase [0x41, 0xFEFF, 0x3A3])) sigma_bg = 0"
  by code_simp

text \<open>
  Claim C7, amended. When the lower-cased form of a tag of a record, not empty and
  without white space, stands in the lower-cased input as a whole word (at the start of
  it or after white space, and at the end of it or before white space), the score of the
  record is at least 10; so is the best score of the loop when the record is in the
  catalog.
\<close>

theorem exact_word_scores_ten:
  assumes "tag \<in> set (tags bg)"
    and "toLowerCase tag \<noteq> []" and "\<forall>c \<in> set (toLowerCase tag). \<not> is_space c"
    and "toLowerCase userInput = before @ toLowerCase tag @ rest"
    and "before = [] \<or> is_space (last before)" and "rest = [] \<or> is_space (hd rest)"
  shows "10 \<le> bg_score toLowerCase (toLowerCase userInput) (split_ws (toLowerCase userInput)) bg
     \<and> (bg \<in> set backgrounds
          \<longrightarrow> 10 \<le> snd (keywordMatch_loop toLowerCase backgrounds dflt userInput))"
proof -
  let ?words = "split_ws (toLowerCase userInput)"
  have w: "toLowerCase tag \<in> set ?words"
    unfolding assms(4) by (rule split_ws_word [OF assms(3,2,5,6)])
  have "word_points (toLowerCase tag) (toLowerCase tag) = 10"
    by (simp add: word_points_def)
  then have "10 \<le> tag_total toLowerCase (toLowerCase userInput) ?words tag"
    using word_points_le_tag_total [OF w, of toLowerCase tag "toLowerCase userInput"] by simp
  then have t: "10 \<le> total_score toLowerCase userInput bg"
    using tag_total_le_total [OF assms(1), of toLowerCase userInput] by simp
  then have "bg \<in> set backgrounds
      \<longrightarrow> 10 \<le> snd (keywordMatch_loop toLowerCase backgrounds dflt userInput)"
    using loop_score_ge [of bg backgrounds toLowerCase userInput dflt] by auto
  then show ?thesis
    using t by (simp add: bg_score_total)
qed

text \<open>
  The tag \<open>Night\<close> in the input \<open>Toronto at Night please\<close>: the lower-cased input is
  \<open>toronto at night please\<close>, and the lower-cased tag \<open>night\<close> is one of its words.
\<close>

theorem exact_word_scores_ten_witness:
  "ascii ''Night'' \<in> set (tags \<lparr>bg_id = ascii ''bg12'', filename = ascii ''city_night_skyline.png'',
                                tags = [ascii ''City'', ascii ''Night'']\<rparr>)
   \<and> sample_toLowerCase (ascii ''Night'') = ascii ''night''
   \<and> filter is_space (ascii ''night'') = []
   \<and> sample_toLowerCase (ascii ''Toronto at Night please'')
       = ascii ''toronto at '' @ ascii ''night'' @ ascii '' please''
   \<and> is_space (last (ascii ''toronto at '')) \<and> is_space (hd (ascii '' please''))
   \<and> 10 \<le> bg_score sample_toLowerCase (sample_toLowerCase (ascii ''Toronto at Night please''))
              (split_ws (sample_toLowerCase (ascii ''Toronto at Night please'')))
              \<lparr>bg_id = ascii ''bg12'', filename = ascii ''city_night_skyline.png'',
               tags = [ascii ''City'', ascii ''Night'']\<rparr>"
proof -
  let ?bg = "\<lparr>bg_id = ascii ''bg12'', filename = ascii ''city_night_skyline.png'',
              tags = [ascii ''City'', ascii ''Night'']\<rparr>"
  let ?tag = "ascii ''Night''" and ?input = "ascii ''Toronto at Night please''"
  have m: "?tag \<in> set (tags ?bg)" by simp
  have l: "sample_toLowerCase ?tag = ascii ''night''" by code_simp
  have n: "sample_toLowerCase ?tag \<noteq> []" by code_simp
  have s: "\<forall>c \<in> set (sample_toLowerCase ?tag). \<not> is_space c" by code_simp
  have f: "filter is_space (ascii ''night'') = []" by code_simp
  have e: "sample_toLowerCase ?input
      = ascii ''toronto at '' @ sample_toLowerCase ?tag @ ascii '' please''" by code_simp
  have b: "ascii ''toronto at '' = [] \<or> is_space (last (ascii ''toronto at ''))" by code_simp
  have r: "ascii '' please'' = [] \<or> is_space (hd (ascii '' please''))" by code_simp
  have b': "is_space (last (ascii ''toronto at ''))" by code_simp
  have r': "is_space (hd (ascii '' please''))" by code_simp
  show ?thesis
    using m l f b' r' e exact_word_scores_ten [OF m n s e b r, of "[]" ?bg]
    by simp
qed

section \<open>Properties of the background resolver\<close>

subsection \<open>Supporting lemmas\<close>

lemma blank_tag_total:
  assumes "\<forall>c \<in> set inputLower. is_space c" and "\<exists>c \<in> set (toLowerCase tag). \<not> is_space c"
  shows "tag_total toLowerCase inputLower (split_ws inputLower) tag = 0"
proof -
  have ne: "toLowerCase tag \<noteq> []"
    using assms(2) by auto
  have "\<forall>word \<in> set (split_ws inputLower). word = []"
    using split_ws_blank [OF assms(1)] by auto
  then have "\<forall>word \<in> set (split_ws inputLower). word_points (toLowerCase tag) word = 0"
    using ne by (auto simp: word_points_def)
  then have w: "(\<Sum>word \<leftarrow> split_ws inputLower. word_points (toLowerCase tag) word) = 0"
    by simp
  have "\<not> includes_str inputLower (toLowerCase tag)"
  proof
    assume "includes_str inputLower (toLowerCase tag)"
    then have "set (toLowerCase tag) \<subseteq> set inputLower" by (rule includes_str_subset)
    then show False using assms by auto
  qed
  then show ?thesis by (simp add: tag_total_def w)
qed

lemma find_member: "find P xs = Some x \<Longrightarrow> x \<in> set xs \<and> P x"
  by (induction xs) (auto split: if_splits)

lemma try_block_member:
  "try_block toLowerCase backgrounds dflt reply userInput = Inr r
     \<Longrightarrow> r \<in> insert dflt (set backgrounds)"
  using keywordMatch_member [of toLowerCase backgrounds dflt userInput]
  by (auto simp: try_block_def split: fetch_reply.splits if_splits option.splits sum.splits
      dest: find_member)

lemma try_block_failed:
  "call_failed backgrounds reply \<Longrightarrow>
     (case try_block toLowerCase backgrounds dflt reply userInput of
        Inl error \<Rightarrow> True
      | Inr r \<Rightarrow> r = keywordMatch toLowerCase backgrounds dflt userInput)"
  by (auto simp: try_block_def call_failed_def
      split: fetch_reply.splits if_splits option.splits sum.splits dest: find_member)

subsection \<open>Blank input\<close>

text \<open>
  Claim C6, as stated, fails for \<open>keywordMatch\<close>, which has no test for blank input
  of its own. With a record whose only tag is the empty string in the catalog, the input
  of three spaces splits into two empty words; each equals the tag and adds 10, and the
  record is returned with the score 20, not the default. The empty input has one empty
  word and gives the same record.
\<close>

theorem blank_input_counterexample:
  "filter (\<lambda>c. \<not> is_space c) (ascii ''   '') = []
   \<and> tags untagged_bg = [[]]
   \<and> split_ws (sample_toLowerCase (ascii ''   '')) = [[], []]
   \<and> keywordMatch_loop sample_toLowerCase [untagged_bg] plain_bg (ascii ''   '')
       = (untagged_bg, 20)
   \<and> keywordMatch sample_toLowerCase [untagged_bg] plain_bg (ascii ''   '') = untagged_bg
   \<and> keywordMatch sample_toLowerCase [untagged_bg] plain_bg [] = untagged_bg
   \<and> untagged_bg \<noteq> plain_bg"
  by code_simp

text \<open>
  Claim C6, amended. For an input that consists of white space only (the empty input
  included), \<open>matchBackground\<close> resolves to the default record and sends no request to
  the external service; and \<open>keywordMatch\<close> returns the default record when no tag of
  the catalog, in lower case, is empty or made of white space only (the input in lower
  case being white space still, as lower-casing leaves white space alone).
\<close>

theorem blank_input_gives_default:
  assumes "\<forall>c \<in> set userInput. is_space c"
  shows "matchBackground toLowerCase OPENAI_API_KEY backgrounds dflt reply userInput
       = (0, Inr dflt)
     \<and> ((\<forall>c \<in> set (toLowerCase userInput). is_space c)
         \<and> (\<forall>bg \<in> set backgrounds. \<forall>tag \<in> set (tags bg).
               \<exists>c \<in> set (toLowerCase tag). \<not> is_space c)
          \<longrightarrow> keywordMatch toLowerCase backgrounds dflt userInput = dflt)"
proof (intro conjI impI)
  show "matchBackground toLowerCase OPENAI_API_KEY backgrounds dflt reply userInput
      = (0, Inr dflt)"
    using assms by (simp add: matchBackground_def trim_blank)
next
  assume t: "(\<forall>c \<in> set (toLowerCase userInput). is_space c)
         \<and> (\<forall>bg \<in> set backgrounds. \<forall>tag \<in> set (tags bg).
               \<exists>c \<in> set (toLowerCase tag). \<not> is_space c)"
  then have "\<forall>b \<in> set backgrounds. \<forall>tag \<in> set (tags b).
      tag_total toLowerCase (toLowerCase userInput) (split_ws (toLowerCase userInput)) tag = 0"
    using blank_tag_total [of "toLowerCase userInput" toLowerCase] by blast
  then have "\<forall>b \<in> set backgrounds. total_score toLowerCase userInput b = 0"
    by (simp add: total_score_def)
  then show "keywordMatch toLowerCase backgrounds dflt userInput = dflt"
    by (rule keywordMatch_default)
qed

text \<open>A space, a tab and a space, and the empty input, with the sample catalog.\<close>

theorem blank_input_gives_default_witness:
  "list_all is_space [0x20, 0x09, 0x20]
   \<and> sample_toLowerCase [0x20, 0x09, 0x20] = [0x20, 0x09, 0x20]
   \<and> list_all (\<lambda>bg. list_all (\<lambda>tag. list_ex (\<lambda>c. \<not> is_space c) (sample_toLowerCase tag)) (tags bg))
        sample_backgrounds
   \<and> matchBackground sample_toLowerCase (Some (ascii ''sk-key'')) sample_backgrounds plain_bg
        FetchRejected [0x20, 0x09, 0x20] = (0, Inr plain_bg)
   \<and> keywordMatch sample_toLowerCase sample_backgrounds plain_bg [0x20, 0x09, 0x20] = plain_bg
   \<and> matchBackground sample_toLowerCase None sample_backgrounds plain_bg FetchRejected []
       = (0, Inr plain_bg)
   \<and> keywordMatch sample_toLowerCase sample_backgrounds plain_bg [] = plain_bg"
proof -
  let ?blank = "[0x20, 0x09, 0x20] :: js_string"
  have b: "\<forall>c \<in> set ?blank. is_space c"
    by code_simp
  have e: "\<forall>c \<in> set ([] :: js_string). is_space c"
    by simp
  have l: "sample_toLowerCase ?blank = ?blank" "sample_toLowerCase [] = []"
    by code_simp+
  have t: "\<forall>bg \<in> set sample_backgrounds. \<forall>tag \<in> set (tags bg).
      \<exists>c \<in> set (sample_toLowerCase tag). \<not> is_space c"
    by code_simp
  have b': "list_all is_space ?blank"
    using b by (simp only: list_all_iff)
  have t': "list_all (\<lambda>bg. list_all (\<lambda>tag. list_ex (\<lambda>c. \<not> is_space c) (sample_toLowerCase tag))
      (tags bg)) sample_backgrounds"
    using t by (simp only: list_all_iff list_ex_iff)
  have lb: "\<forall>c \<in> set (sample_toLowerCase ?blank). is_space c"
    unfolding l by (rule b)
  have le: "\<forall>c \<in> set (sample_toLowerCase []). is_space c"
    unfolding l by simp
  show ?thesis
    using b' t' t l(1) lb le
      blank_input_gives_default [OF b, of sample_toLowerCase "Some (ascii ''sk-key'')"
        sample_backgrounds plain_bg FetchRejected]
      blank_input_gives_default [OF e, of sample_toLowerCase None sample_backgrounds plain_bg
        FetchRejected]
    by blast
qed

subsection \<open>No rejection\<close>

text \<open>
  Claim C3. For every input, key, catalog and reply of the external service, the promise
  of \<open>matchBackground\<close> is fulfilled, with a record that is the default record or a
  record of the catalog (a record of the catalog, when the default is one of them). When
  the input is not blank and the external call fails (network error, status outside
  200..299, malformed response, or an id that is not in the catalog), the record is the
  one that \<open>keywordMatch\<close> returns for the same input.
\<close>

theorem matchBackground_never_rejects:
  "\<exists>r. snd (matchBackground toLowerCase OPENAI_API_KEY backgrounds dflt reply userInput) = Inr r
     \<and> r \<in> insert dflt (set backgrounds)
     \<and> (dflt \<in> set backgrounds \<longrightarrow> r \<in> set backgrounds)
     \<and> (trim userInput \<noteq> [] \<and> call_failed backgrounds reply
          \<longrightarrow> r = keywordMatch toLowerCase backgrounds dflt userInput)"
proof -
  let ?k = "keywordMatch toLowerCase backgrounds dflt userInput"
  let ?m = "matchBackground toLowerCase OPENAI_API_KEY backgrounds dflt reply userInput"
  let ?t = "try_block toLowerCase backgrounds dflt reply userInput"
  have k: "?k \<in> insert dflt (set backgrounds)"
    by (rule keywordMatch_member)
  consider (blank) "userInput = [] \<or> trim userInput = []"
    | (nokey) "\<not> (userInput = [] \<or> trim userInput = [])" "\<not> truthy OPENAI_API_KEY"
    | (thrown) error where "\<not> (userInput = [] \<or> trim userInput = [])" "truthy OPENAI_API_KEY"
        "?t = Inl error"
    | (returned) r where "\<not> (userInput = [] \<or> trim userInput = [])" "truthy OPENAI_API_KEY"
        "?t = Inr r"
    by (cases ?t) blast+
  then show ?thesis
  proof cases
    case blank
    then have "snd ?m = Inr dflt"
      by (auto simp: matchBackground_def)
    moreover have "trim userInput = []" using blank by (auto simp: trim_def)
    ultimately show ?thesis by auto
  next
    case nokey
    then have "snd ?m = Inr ?k"
      by (simp add: matchBackground_def)
    then show ?thesis using k by auto
  next
    case thrown
    then have "snd ?m = Inr ?k"
      by (simp add: matchBackground_def)
    then show ?thesis using k by auto
  next
    case returned
    then have m: "snd ?m = Inr r"
      by (simp add: matchBackground_def)
    have "r \<in> insert dflt (set backgrounds)"
      using returned(3) by (rule try_block_member)
    moreover have "call_failed backgrounds reply \<longrightarrow> r = ?k"
      using try_block_failed [of backgrounds reply toLowerCase dflt userInput] returned(3) by simp
    ultimately show ?thesis using m by auto
  qed
qed

text \<open>
  The input \<open>outer space\<close>, for which \<open>keywordMatch\<close> returns the space record, with
  a rejected request, a response with status 429, a body without \<open>choices\<close> and a
  completion that names the unknown id \<open>bg99\<close>: one request each, and the space record.
\<close>

theorem matchBackground_never_rejects_witness:
  "trim (ascii ''outer space'') \<noteq> []
   \<and> keywordMatch sample_toLowerCase sample_backgrounds plain_bg (ascii ''outer space'') = space_bg
   \<and> call_failed sample_backgrounds FetchRejected
   \<and> matchBackground sample_toLowerCase (Some (ascii ''sk-key'')) sample_backgrounds plain_bg
        FetchRejected (ascii ''outer space'')
       = (1, Inr space_bg)
   \<and> call_failed sample_backgrounds (Response 429 None)
   \<and> matchBackground sample_toLowerCase (Some (ascii ''sk-key'')) sample_backgrounds plain_bg
        (Response 429 None) (ascii ''outer space'')
       = (1, Inr space_bg)
   \<and> call_failed sample_backgrounds (Response 200 (Some (JObj [(''error'', JStr (ascii ''quota''))])))
   \<and> matchBackground sample_toLowerCase (Some (ascii ''sk-key'')) sample_backgrounds plain_bg
        (Response 200 (Some (JObj [(''error'', JStr (ascii ''quota''))]))) (ascii ''outer space'')
       = (1, Inr space_bg)
   \<and> call_failed sample_backgrounds (Response 200 (Some (completion ''bg99'')))
   \<and> matchBackground sample_toLowerCase (Some (ascii ''sk-key'')) sample_backgrounds plain_bg
        (Response 200 (Some (completion ''bg99''))) (ascii ''outer space'')
       = (1, Inr space_bg)"
proof -
  let ?m = "\<lambda>reply. matchBackground sample_toLowerCase (Some (ascii ''sk-key''))
      sample_backgrounds plain_bg reply (ascii ''outer space'')"
  have t: "trim (ascii ''outer space'') \<noteq> []"
    by code_simp
  have y: "truthy (Some (ascii ''sk-key''))"
    by code_simp
  have k: "keywordMatch sample_toLowerCase sample_backgrounds plain_bg (ascii ''outer space'')
      = space_bg"
    by code_simp
  have f: "call_failed sample_backgrounds FetchRejected"
    "call_failed sample_backgrounds (Response 429 None)"
    "call_failed sample_backgrounds (Response 200 (Some (JObj [(''error'', JStr (ascii ''quota''))])))"
    "call_failed sample_backgrounds (Response 200 (Some (completion ''bg99'')))"
    by code_simp+
  have n: "fst (?m reply) = 1" for reply
    using t y by (auto simp: matchBackground_def trim_def)
  have "?m reply = (1, Inr space_bg)" if "call_failed sample_backgrounds reply" for reply
    using matchBackground_never_rejects [of sample_toLowerCase "Some (ascii ''sk-key'')"
        sample_backgrounds plain_bg reply "ascii ''outer space''"] t k that n [of reply]
    by (metis prod.collapse)
  then show ?thesis
    using t k f by blast
qed

end
